theory Spec2Isabelle
  imports Complex_Main "HOL-Library.AList" "HOL-Library.Sublist"
begin

section \<open>JavaScript numbers\<close>

text \<open>
  The scripts compute with JavaScript numbers, which are IEEE 754 doubles. A number is
  modelled as one of the three special values or a finite real, and the result of an
  arithmetic operation on finite operands is the exact result rounded to the nearest
  double, ties to the even significand, or an infinity when that is out of range. The
  sign of zero is not modelled: no script here divides by a zero, which is the one place
  where the sign would show.
\<close>

datatype number = Num real | NaN | PosInfinity | NegInfinity

text \<open>The nearest integer, a tie going to the even one.\<close>

definition round_half_even :: "real \<Rightarrow> int" where
  "round_half_even y =
     (let n = \<lfloor>y\<rfloor>; d = y - of_int n
      in if d < 1 / 2 then n else if 1 / 2 < d then n + 1 else if even n then n else n + 1)"

text \<open>
  The binary exponent of a value: the number of halvings that bring a value of at least
  1 below 2, or minus the number of doublings that bring a smaller one up to 1. The
  exponent of a double stays between \<open>- 1022\<close>, where the subnormal numbers begin, and
  1024, which only a value out of range reaches.
\<close>

fun halvings :: "nat \<Rightarrow> real \<Rightarrow> nat" where
  "halvings 0 x = 0"
| "halvings (Suc n) x = (if x < 2 then 0 else Suc (halvings n (x / 2)))"

fun doublings :: "nat \<Rightarrow> real \<Rightarrow> nat" where
  "doublings 0 x = 0"
| "doublings (Suc n) x = (if 1 \<le> x then 0 else Suc (doublings n (x * 2)))"

definition exponent :: "real \<Rightarrow> int" where
  "exponent x = (if 1 \<le> \<bar>x\<bar> then int (halvings 1024 \<bar>x\<bar>) else - int (doublings 1022 \<bar>x\<bar>))"

text \<open>The distance between neighbouring doubles around \<open>x\<close>: a significand has 53 bits.\<close>

definition ulp :: "real \<Rightarrow> real" where
  "ulp x = 2 powi (exponent x - 52)"

definition overflow_bound :: real where
  "overflow_bound = 2 ^ 1024"

text \<open>The double nearest to a real, or the infinity of its sign.\<close>

definition to_double :: "real \<Rightarrow> number" where
  "to_double x =
     (let r = of_int (round_half_even (x / ulp x)) * ulp x
      in if overflow_bound \<le> \<bar>r\<bar> then (if 0 < x then PosInfinity else NegInfinity) else Num r)"

text \<open>\<open>x + y\<close>, \<open>x * y\<close> and \<open>x / y\<close>: none of them throws.\<close>

fun js_add :: "number \<Rightarrow> number \<Rightarrow> number" where
  "js_add (Num a) (Num b) = to_double (a + b)"
| "js_add NaN y = NaN"
| "js_add x NaN = NaN"
| "js_add PosInfinity NegInfinity = NaN"
| "js_add NegInfinity PosInfinity = NaN"
| "js_add PosInfinity y = PosInfinity"
| "js_add NegInfinity y = NegInfinity"
| "js_add (Num a) PosInfinity = PosInfinity"
| "js_add (Num a) NegInfinity = NegInfinity"

fun js_multiply :: "number \<Rightarrow> number \<Rightarrow> number" where
  "js_multiply (Num a) (Num b) = to_double (a * b)"
| "js_multiply NaN y = NaN"
| "js_multiply x NaN = NaN"
| "js_multiply (Num a) PosInfinity = (if a = 0 then NaN else if 0 < a then PosInfinity else NegInfinity)"
| "js_multiply (Num a) NegInfinity = (if a = 0 then NaN else if 0 < a then NegInfinity else PosInfinity)"
| "js_multiply PosInfinity (Num b) = (if b = 0 then NaN else if 0 < b then PosInfinity else NegInfinity)"
| "js_multiply NegInfinity (Num b) = (if b = 0 then NaN else if 0 < b then NegInfinity else PosInfinity)"
| "js_multiply PosInfinity PosInfinity = PosInfinity"
| "js_multiply PosInfinity NegInfinity = NegInfinity"
| "js_multiply NegInfinity PosInfinity = NegInfinity"
| "js_multiply NegInfinity NegInfinity = PosInfinity"

fun js_divide :: "number \<Rightarrow> number \<Rightarrow> number" where
  "js_divide (Num a) (Num b) =
     (if b \<noteq> 0 then to_double (a / b)
      else if a = 0 then NaN
      else if 0 < a then PosInfinity
      else NegInfinity)"
| "js_divide NaN y = NaN"
| "js_divide x NaN = NaN"
| "js_divide (Num a) PosInfinity = Num 0"
| "js_divide (Num a) NegInfinity = Num 0"
| "js_divide PosInfinity (Num b) = (if 0 \<le> b then PosInfinity else NegInfinity)"
| "js_divide NegInfinity (Num b) = (if 0 \<le> b then NegInfinity else PosInfinity)"
| "js_divide PosInfinity y = NaN"
| "js_divide NegInfinity y = NaN"


fun Math_floor :: "number \<Rightarrow> number" where
  "Math_floor (Num a) = Num (of_int \<lfloor>a\<rfloor>)"
| "Math_floor NaN = NaN"
| "Math_floor PosInfinity = PosInfinity"
| "Math_floor NegInfinity = NegInfinity"


text \<open>\<open>x < y\<close> and \<open>x <= y\<close>: every comparison with \<open>NaN\<close> is false.\<close>

fun js_lt :: "number \<Rightarrow> number \<Rightarrow> bool" where
  "js_lt (Num a) (Num b) = (a < b)"
| "js_lt (Num a) PosInfinity = True"
| "js_lt (Num a) NegInfinity = False"
| "js_lt (Num a) NaN = False"
| "js_lt NegInfinity (Num b) = True"
| "js_lt NegInfinity PosInfinity = True"
| "js_lt NegInfinity NegInfinity = False"
| "js_lt NegInfinity NaN = False"
| "js_lt PosInfinity y = False"
| "js_lt NaN y = False"


definition LAMPORTS_PER_SOL :: real where
  "LAMPORTS_PER_SOL = 1000000000"

text \<open>A rejected promise or a thrown \<open>Error\<close>, with its message.\<close>

datatype error = Error string

section \<open>The demo applications: simulated distributions\<close>

type_synonym PublicKey = string

text \<open>
  \<open>{ address, balance }\<close>: the demos hold plain numbers as balances, the bots hold
  \<open>anchor.BN\<close> values (unbounded naturals).
\<close>

record 'n HolderInfo =
  address :: PublicKey
  balance :: 'n

subsection \<open>\<open>app/index.js\<close>: equal distribution\<close>





subsection \<open>The proportional demo\<close>

definition mockHolders5 :: "real HolderInfo list" where
  "mockHolders5 =
    [\<lparr>address = ''H1LD3R1...abc123'', balance = 1000000\<rparr>,
     \<lparr>address = ''H1LD3R2...def456'', balance = 800000\<rparr>,
     \<lparr>address = ''H1LD3R3...ghi789'', balance = 600000\<rparr>,
     \<lparr>address = ''H1LD3R4...jkl012'', balance = 400000\<rparr>,
     \<lparr>address = ''H1LD3R5...mno345'', balance = 200000\<rparr>]"

text \<open>\<open>mockHolders.reduce((sum, holder) => sum + holder.balance, 0)\<close>\<close>

definition totalBalance :: "real HolderInfo list \<Rightarrow> number" where
  "totalBalance mockHolders =
     foldl (\<lambda>sum holder. js_add sum (Num (balance holder))) (Num 0) mockHolders"

text \<open>
  \<open>Math.floor((totalAmount * holder.balance) / totalBalance)\<close>: the product is rounded to
  a double, then the quotient is, then the floor is taken.
\<close>

definition share :: "real \<Rightarrow> number \<Rightarrow> real HolderInfo \<Rightarrow> number" where
  "share totalAmount weightSum holder =
     Math_floor (js_divide (js_multiply (Num totalAmount) (Num (balance holder))) weightSum)"

text \<open>
  One line \<open>(index + 1, address, share, percentage)\<close> for each holder; the percentage is
  printed with \<open>toFixed(2)\<close>, the line keeps the number.
\<close>

definition proportionalDistribution ::
  "real HolderInfo list \<Rightarrow> real \<Rightarrow> (nat \<times> PublicKey \<times> number \<times> number) list" where
  "proportionalDistribution mockHolders totalAmount =
     (let weightSum = totalBalance mockHolders
      in map (\<lambda>(index, holder).
                (index + 1, address holder, share totalAmount weightSum holder,
                 js_multiply (js_divide (Num (balance holder)) weightSum) (Num 100)))
             (enumerate 0 mockHolders))"

definition simulateDistribution_proportional ::
  "real \<Rightarrow> error + (nat \<times> PublicKey \<times> number \<times> number) list" where
  "simulateDistribution_proportional totalAmount =
     Inr (proportionalDistribution mockHolders5 totalAmount)"

text \<open>The shares of a proportional report, in the order of its lines.\<close>

definition payouts :: "(nat \<times> PublicKey \<times> number \<times> number) list \<Rightarrow> number list" where
  "payouts report = map (\<lambda>(index, addr, sh, percentage). sh) report"

section \<open>The ledger and the external services\<close>

text \<open>
  The pool account as the scripts read it (\<open>program.account.rewardPool.fetch\<close>), and
  the lamport balances of the pool vault and of the upstream creator vault.
\<close>

record RewardPool =
  owner :: PublicKey
  topHolders :: "nat HolderInfo list"
  totalRewards :: nat
  totalDistributed :: nat

record ledger =
  pool :: RewardPool
  vaultLamports :: nat
  creatorVaultLamports :: nat

text \<open>
  What \<open>getMultipleAccountsInfo\<close> returns for one token account: \<open>null\<close> is \<open>None\<close>;
  otherwise \<open>AccountLayout.decode\<close> either yields the owner and the amount or throws.
\<close>

datatype account_info = TokenAccount PublicKey nat | Undecodable

text \<open>The requests a script makes to the ledger and to the RPC services, in order.\<close>

datatype request =
    GetCreatorVaultBalance
  | GetBalance
  | CollectCreatorFees
  | GetTokenLargestAccounts
  | GetMultipleAccountsInfo "PublicKey list"
  | UpdateTopHolders "nat HolderInfo list"
  | DistributeRewards "nat HolderInfo list"
  | OwnerWithdraw int


record world =
  ledger :: ledger
  requests :: "request list"

text \<open>
  The services are parameters of the model. A query answers from the ledger and leaves
  it as it is; a transaction either fails and changes nothing or is confirmed with a
  signature and a new ledger. \<open>isOnCurve\<close> is \<open>PublicKey.isOnCurve\<close>, and
  \<open>validPublicKey\<close> tells whether \<open>new PublicKey(text)\<close> accepts a configured text.
\<close>

record chain =
  getCreatorVaultBalanceBothPrograms :: "ledger \<Rightarrow> error + nat"
  getVaultBalance :: "ledger \<Rightarrow> error + nat"
  sendCollectCoinCreatorFee :: "ledger \<Rightarrow> error + string \<times> ledger"
  getTokenLargestAccounts :: "ledger \<Rightarrow> error + PublicKey list option"
  getMultipleAccountsInfo :: "PublicKey list \<Rightarrow> ledger \<Rightarrow> error + account_info option list"
  isOnCurve :: "PublicKey \<Rightarrow> bool"
  validPublicKey :: "string \<Rightarrow> bool"
  sendDistributeRewards :: "nat HolderInfo list \<Rightarrow> ledger \<Rightarrow> error + string \<times> ledger"
  sendOwnerWithdraw :: "int \<Rightarrow> ledger \<Rightarrow> error + string \<times> ledger"

definition query :: "request \<Rightarrow> (ledger \<Rightarrow> error + 'a) \<Rightarrow> world \<Rightarrow> (error + 'a) \<times> world" where
  "query r f w = (f (ledger w), w\<lparr>requests := requests w @ [r]\<rparr>)"

definition sendAndConfirm ::
  "request \<Rightarrow> (ledger \<Rightarrow> error + string \<times> ledger) \<Rightarrow> world \<Rightarrow> (error + string) \<times> world" where
  "sendAndConfirm r f w =
     (case f (ledger w) of
        Inl e \<Rightarrow> (Inl e, w\<lparr>requests := requests w @ [r]\<rparr>)
      | Inr (signature, l) \<Rightarrow> (Inr signature, \<lparr>ledger = l, requests = requests w @ [r]\<rparr>))"

section \<open>\<open>scripts/cron-bot-live.ts\<close>\<close>

text \<open>
  \<open>Number(lamports.toString()) / LAMPORTS_PER_SOL\<close>: the balance is an unbounded integer,
  \<open>Number\<close> of its decimal text is the double nearest to it, and the division rounds
  again.
\<close>

definition getPendingCreatorRewards :: "chain \<Rightarrow> world \<Rightarrow> (error + number) \<times> world" where
  "getPendingCreatorRewards c w =
     (case query GetCreatorVaultBalance (getCreatorVaultBalanceBothPrograms c) w of
        (Inl e, w1) \<Rightarrow> (Inl e, w1)
      | (Inr lamports, w1) \<Rightarrow>
          (Inr (js_divide (to_double (real lamports)) (Num LAMPORTS_PER_SOL)), w1))"

text \<open>
  Building the claim instructions and sending them are one step here: either may fail,
  and both failures reject \<open>collectCreatorFees\<close> in the same way.
\<close>

definition collectCreatorFees :: "chain \<Rightarrow> world \<Rightarrow> (error + string) \<times> world" where
  "collectCreatorFees c w = sendAndConfirm CollectCreatorFees (sendCollectCoinCreatorFee c) w"

text \<open>
  \<open>HolderMap\<close> is a JavaScript \<open>Map\<close>: its entries stay in the order in which their keys
  were first set, and setting a present key keeps the key's place. \<open>map_of\<close> is
  \<open>get\<close> and \<open>AList.update\<close> is \<open>set\<close>. A key is the base58 text of the owner.
\<close>

type_synonym HolderMap = "(PublicKey \<times> nat) list"

text \<open>The callback of \<open>accountInfos.forEach\<close>, with the map it updates made explicit.\<close>

fun forEach_callback :: "(PublicKey \<Rightarrow> bool) \<Rightarrow> HolderMap \<Rightarrow> account_info option \<Rightarrow> HolderMap" where
  "forEach_callback onCurve holderMap None = holderMap"
| "forEach_callback onCurve holderMap (Some Undecodable) = holderMap"
| "forEach_callback onCurve holderMap (Some (TokenAccount key amt)) =
     (if \<not> onCurve key then holderMap
      else if amt = 0 then holderMap
      else let existing = (case map_of holderMap key of Some v \<Rightarrow> v | None \<Rightarrow> 0)
           in AList.update key (existing + amt) holderMap)"

definition BN_cmp :: "nat \<Rightarrow> nat \<Rightarrow> int" where
  "BN_cmp a b = (if a < b then - 1 else if a = b then 0 else 1)"

text \<open>
  \<open>Array.prototype.sort\<close> is stable. For a comparator that orders the elements by a
  key, the stable order is unique, so this stable insertion sort returns the array that
  every engine returns.
\<close>

fun insert_sorted :: "('a \<Rightarrow> 'a \<Rightarrow> int) \<Rightarrow> 'a \<Rightarrow> 'a list \<Rightarrow> 'a list" where
  "insert_sorted compareFn x [] = [x]"
| "insert_sorted compareFn x (y # ys) =
     (if compareFn x y \<le> 0 then x # y # ys else y # insert_sorted compareFn x ys)"

definition Array_sort :: "('a \<Rightarrow> 'a \<Rightarrow> int) \<Rightarrow> 'a list \<Rightarrow> 'a list" where
  "Array_sort compareFn xs = foldr (insert_sorted compareFn) xs []"

text \<open>
  The second half of \<open>fetchTopHolders\<close>: fold the account infos into the map, sort the
  entries by balance, largest first, keep \<open>limit\<close> of them.
\<close>

definition rankHolders ::
  "(PublicKey \<Rightarrow> bool) \<Rightarrow> account_info option list \<Rightarrow> nat \<Rightarrow> nat HolderInfo list" where
  "rankHolders onCurve accountInfos limit =
     (let holderMap = foldl (forEach_callback onCurve) [] accountInfos
      in map (\<lambda>(addr, bal). \<lparr>address = addr, balance = bal\<rparr>)
           (take limit (Array_sort (\<lambda>a b. BN_cmp (snd b) (snd a)) holderMap)))"

text \<open>\<open>limit\<close> is a count: the one call passes 20.\<close>

definition fetchTopHolders :: "chain \<Rightarrow> nat \<Rightarrow> world \<Rightarrow> (error + nat HolderInfo list) \<times> world" where
  "fetchTopHolders c limit w =
     (case query GetTokenLargestAccounts (getTokenLargestAccounts c) w of
        (Inl e, w1) \<Rightarrow> (Inl e, w1)
      | (Inr largest, w1) \<Rightarrow>
          (case largest of
             None \<Rightarrow> (Inr [], w1)
           | Some val \<Rightarrow>
               if length val = 0 then (Inr [], w1)
               else
                 let upperBound = min (length val) (limit * 2);
                     tokenAccountPubkeys = take upperBound val
                 in (case query (GetMultipleAccountsInfo tokenAccountPubkeys)
                           (getMultipleAccountsInfo c tokenAccountPubkeys) w1 of
                       (Inl e, w2) \<Rightarrow> (Inl e, w2)
                     | (Inr accountInfos, w2) \<Rightarrow>
                         (Inr (rankHolders (isOnCurve c) accountInfos limit), w2))))"

definition distributeRewards ::
  "chain \<Rightarrow> nat HolderInfo list \<Rightarrow> world \<Rightarrow> (error + string) \<times> world" where
  "distributeRewards c holders w =
     (if length holders = 0 then (Inl (Error ''No holders available for distribution''), w)
      else sendAndConfirm (DistributeRewards holders) (sendDistributeRewards c holders) w)"

definition main :: "chain \<Rightarrow> number \<Rightarrow> world \<Rightarrow> (error + unit) \<times> world" where
  "main c REWARD_THRESHOLD_SOL w =
     (case getPendingCreatorRewards c w of
        (Inl e, w1) \<Rightarrow> (Inl e, w1)
      | (Inr pendingRewards, w1) \<Rightarrow>
          if js_lt pendingRewards REWARD_THRESHOLD_SOL then (Inr (), w1)
          else
            (case collectCreatorFees c w1 of
               (Inl e, w2) \<Rightarrow> (Inl e, w2)
             | (Inr claimSignature, w2) \<Rightarrow>
                 (case fetchTopHolders c 20 w2 of
                    (Inl e, w3) \<Rightarrow> (Inl e, w3)
                  | (Inr holders, w3) \<Rightarrow>
                      if length holders = 0 then (Inr (), w3)
                      else
                        (case distributeRewards c holders w3 of
                           (Inl e, w4) \<Rightarrow> (Inl e, w4)
                         | (Inr signature, w4) \<Rightarrow> (Inr (), w4)))))"

text \<open>\<open>main().then(() => process.exit(0)).catch(() => process.exit(1))\<close>\<close>

definition exit_status :: "(error + unit) \<times> world \<Rightarrow> nat \<times> world" where
  "exit_status r = (case r of (Inr u, w) \<Rightarrow> (0, w) | (Inl e, w) \<Rightarrow> (1, w))"

text \<open>
  A run of the live bot, from the call of \<open>main\<close> on: the settings that the script
  checks at module level (the RPC URL, the mint, the creator) and its wallet and IDL
  file are taken to be in place. \<open>REWARD_THRESHOLD_SOL\<close> is the number that the
  configured text converts to.
\<close>

definition cron_bot_live :: "chain \<Rightarrow> number \<Rightarrow> world \<Rightarrow> nat \<times> world" where
  "cron_bot_live c REWARD_THRESHOLD_SOL w = exit_status (main c REWARD_THRESHOLD_SOL w)"


section \<open>The mock cron bot\<close>

text \<open>
  The mock bot reads the pending amount from the pool vault, claims nothing, and pays
  the configured fake recipients. Its \<open>fetchRealHolderBalances\<close> has the text of
  \<open>fetchTopHolders\<close> and its \<open>distributeRewards\<close> is the one above.
\<close>








section \<open>\<open>scripts/withdraw.ts\<close>\<close>







section \<open>Notions used to state the properties\<close>

text \<open>
  The candidates of a refresh are the account infos it reads: those of the first
  \<open>2 * limit\<close> largest token accounts, in the order of the answer.
\<close>

definition candidates :: "chain \<Rightarrow> nat \<Rightarrow> world \<Rightarrow> account_info option list" where
  "candidates c limit w =
     (case getTokenLargestAccounts c (ledger w) of
        Inr (Some val) \<Rightarrow>
          if val = [] then []
          else (case getMultipleAccountsInfo c (take (min (length val) (limit * 2)) val) (ledger w) of
                  Inr accountInfos \<Rightarrow> accountInfos
                | Inl e \<Rightarrow> [])
      | Inr None \<Rightarrow> []
      | Inl e \<Rightarrow> [])"

text \<open>
  The queries of a refresh are answered when none of those it makes is rejected: the
  query of the largest accounts, and the query of the account infos if there is any
  account to ask about.
\<close>

definition refresh_answered :: "chain \<Rightarrow> nat \<Rightarrow> ledger \<Rightarrow> bool" where
  "refresh_answered c limit l =
     (case getTokenLargestAccounts c l of
        Inl e \<Rightarrow> False
      | Inr None \<Rightarrow> True
      | Inr (Some val) \<Rightarrow>
          val = [] \<or> \<not> isl (getMultipleAccountsInfo c (take (min (length val) (limit * 2)) val) l))"

text \<open>What one candidate adds to the balance of the address \<open>k\<close>.\<close>

fun contribution :: "PublicKey \<Rightarrow> account_info option \<Rightarrow> nat" where
  "contribution k (Some (TokenAccount key amt)) = (if key = k then amt else 0)"
| "contribution k (Some Undecodable) = 0"
| "contribution k None = 0"

text \<open>The sum of all the balances that the candidates hold for the address \<open>k\<close>.\<close>

definition owned :: "account_info option list \<Rightarrow> PublicKey \<Rightarrow> nat" where
  "owned accountInfos k = (\<Sum>info\<leftarrow>accountInfos. contribution k info)"

text \<open>
  A candidate is eligible when it decodes, its owner can receive a direct transfer and
  its balance is not zero.
\<close>

fun eligible :: "(PublicKey \<Rightarrow> bool) \<Rightarrow> account_info option \<Rightarrow> bool" where
  "eligible onCurve (Some (TokenAccount key amt)) = (onCurve key \<and> amt \<noteq> 0)"
| "eligible onCurve (Some Undecodable) = False"
| "eligible onCurve None = False"

text \<open>The position of the first eligible candidate of the address \<open>k\<close>.\<close>

definition first_seen :: "(PublicKey \<Rightarrow> bool) \<Rightarrow> account_info option list \<Rightarrow> PublicKey \<Rightarrow> nat" where
  "first_seen onCurve accountInfos k =
     length (takeWhile (\<lambda>info. \<not> (eligible onCurve info \<and> 0 < contribution k info)) accountInfos)"

text \<open>
  The order of the ranking on map entries: the larger balance first, and of two equal
  balances the one whose key has the smaller position.
\<close>

definition ranked_before :: "('a \<Rightarrow> nat) \<Rightarrow> ('a \<times> nat) \<Rightarrow> ('a \<times> nat) \<Rightarrow> bool" where
  "ranked_before pos a b \<longleftrightarrow> snd b < snd a \<or> (snd a = snd b \<and> pos (fst a) < pos (fst b))"

abbreviation holderMap_of :: "(PublicKey \<Rightarrow> bool) \<Rightarrow> account_info option list \<Rightarrow> HolderMap" where
  "holderMap_of onCurve accountInfos \<equiv> foldl (forEach_callback onCurve) [] accountInfos"

section \<open>A sample ledger for the concrete runs\<close>

text \<open>
  Seven token accounts: two of \<open>alice\<close>, one of \<open>bob\<close>, one owned by a program-derived
  address, one empty, one that does not decode and one that is missing.
\<close>

definition sample_account :: "PublicKey \<Rightarrow> account_info option" where
  "sample_account k =
     (if k = ''acct1'' then Some (TokenAccount ''alice'' 5)
      else if k = ''acct2'' then Some (TokenAccount ''vault-pda'' 100)
      else if k = ''acct3'' then Some (TokenAccount ''bob'' 7)
      else if k = ''acct4'' then Some (TokenAccount ''alice'' 2)
      else if k = ''acct5'' then Some (TokenAccount ''carol'' 0)
      else if k = ''acct6'' then Some Undecodable
      else None)"

definition sample_chain :: "PublicKey list \<Rightarrow> chain" where
  "sample_chain largest =
     \<lparr>getCreatorVaultBalanceBothPrograms = (\<lambda>l. Inr (creatorVaultLamports l)),
      getVaultBalance = (\<lambda>l. Inr (vaultLamports l)),
      sendCollectCoinCreatorFee =
        (\<lambda>l. Inr (''claimed'', l\<lparr>vaultLamports := vaultLamports l + creatorVaultLamports l,
                                 creatorVaultLamports := 0\<rparr>)),
      getTokenLargestAccounts = (\<lambda>l. Inr (Some largest)),
      getMultipleAccountsInfo = (\<lambda>keys l. Inr (map sample_account keys)),
      isOnCurve = (\<lambda>k. k \<noteq> ''vault-pda''),
      validPublicKey = (\<lambda>text. True),
      sendDistributeRewards = (\<lambda>holders l. Inr (''distributed'', l\<lparr>vaultLamports := 0\<rparr>)),
      sendOwnerWithdraw =
        (\<lambda>lamports l. Inr (''withdrawn'', l\<lparr>vaultLamports := vaultLamports l - nat lamports\<rparr>))\<rparr>"

definition sample_world :: world where
  "sample_world =
     \<lparr>ledger = \<lparr>pool = \<lparr>owner = ''owner'', topHolders = [], totalRewards = 0,
                        totalDistributed = 0\<rparr>,
                vaultLamports = 1500000000, creatorVaultLamports = 2000000000\<rparr>,
      requests = []\<rparr>"


section \<open>Properties of the numbers\<close>

subsection \<open>Rounding to an integer\<close>

lemma round_half_even_int: "round_half_even (of_int m) = m"
  by (simp add: round_half_even_def)

lemma round_half_even_zero: "round_half_even 0 = 0"
  using round_half_even_int [of 0] by simp

lemma round_half_even_near:
  assumes "\<bar>y - of_int n\<bar> < 1 / 2"
  shows "round_half_even y = n"
proof (cases "of_int n \<le> y")
  case True
  with assms have "\<lfloor>y\<rfloor> = n" by linarith
  with assms True show ?thesis by (simp add: round_half_even_def Let_def)
next
  case False
  with assms have fl: "\<lfloor>y\<rfloor> = n - 1" by linarith
  from False assms have "1 / 2 < y - of_int (n - 1)" by simp
  with fl show ?thesis by (simp add: round_half_even_def Let_def)
qed

lemma round_half_even_tie:
  assumes "y = of_int n + 1 / 2"
  shows "round_half_even y = (if even n then n else n + 1)"
proof -
  from assms have "\<lfloor>y\<rfloor> = n" by linarith
  with assms show ?thesis by (simp add: round_half_even_def Let_def)
qed

lemma round_half_even_bounds:
  "\<lfloor>y\<rfloor> \<le> round_half_even y \<and> round_half_even y \<le> \<lfloor>y\<rfloor> + 1"
  by (simp add: round_half_even_def Let_def)

lemma round_half_even_ge:
  assumes "of_int m \<le> y"
  shows "m \<le> round_half_even y"
proof -
  from assms have "m \<le> \<lfloor>y\<rfloor>" by (simp add: le_floor_iff)
  with round_half_even_bounds [of y] show ?thesis by linarith
qed


subsection \<open>The exponent\<close>

lemma halvings_bounds:
  "1 \<le> y \<Longrightarrow> y < 2 ^ n \<Longrightarrow> 2 ^ halvings n y \<le> y \<and> y < 2 * 2 ^ halvings n y"
proof (induction n arbitrary: y)
  case 0
  then show ?case by simp
next
  case (Suc n)
  show ?case
  proof (cases "y < 2")
    case True
    with Suc.prems show ?thesis by simp
  next
    case False
    with Suc.prems have "1 \<le> y / 2" "y / 2 < 2 ^ n" by simp_all
    from Suc.IH [OF this] False show ?thesis by simp
  qed
qed

lemma halvings_capped: "2 ^ n \<le> y \<Longrightarrow> halvings n y = n"
proof (induction n arbitrary: y)
  case 0
  then show ?case by simp
next
  case (Suc n)
  then have "2 ^ n \<le> y / 2" by simp
  moreover have "(1 :: real) \<le> 2 ^ n" by simp
  then have "(2 :: real) \<le> 2 ^ Suc n" unfolding power_Suc by linarith
  with Suc.prems have "\<not> y < 2" by linarith
  ultimately show ?case using Suc.IH [of "y / 2"] by simp
qed

lemma doublings_bounds:
  "0 < y \<Longrightarrow> y < 1 \<Longrightarrow> 1 \<le> y * 2 ^ n \<Longrightarrow>
     0 < doublings n y \<and> 1 \<le> y * 2 ^ doublings n y \<and> y * 2 ^ doublings n y < 2"
proof (induction n arbitrary: y)
  case 0
  then show ?case by simp
next
  case (Suc n)
  show ?case
  proof (cases "1 \<le> y * 2")
    case True
    with Suc.prems show ?thesis by (cases n) simp_all
  next
    case False
    with Suc.prems have "0 < y * 2" "y * 2 < 1" "1 \<le> y * 2 * 2 ^ n" by (simp_all add: mult.assoc)
    from Suc.IH [OF this] Suc.prems show ?thesis by (simp add: mult.assoc)
  qed
qed

lemma powi_less_cancel:
  assumes "(2 :: real) powi a < 2 powi b"
  shows "a < b"
proof (rule ccontr)
  assume "\<not> a < b"
  then have "(2 :: real) powi b \<le> 2 powi a" by (intro power_int_increasing) simp_all
  with assms show False by simp
qed

lemma powi_le_cancel:
  assumes "(2 :: real) powi a \<le> 2 powi b"
  shows "a \<le> b"
proof (rule ccontr)
  assume "\<not> a \<le> b"
  then have "(2 :: real) powi b < 2 powi a" by (intro power_int_strict_increasing) simp_all
  with assms show False by simp
qed

lemma powi_nat: "(2 :: real) powi int n = 2 ^ n"
  by (rule power_int_of_nat)

lemma powi_neg_nat: "(2 :: real) powi (- int n) = 1 / 2 ^ n"
  by (simp only: power_int_minus power_int_of_nat inverse_eq_divide)

text \<open>Within the normal range the exponent is that of the binade holding the value.\<close>

lemma exponent_bounds:
  assumes "2 powi (- 1022) \<le> \<bar>x\<bar>" and "\<bar>x\<bar> < overflow_bound"
  shows "2 powi exponent x \<le> \<bar>x\<bar> \<and> \<bar>x\<bar> < 2 powi (exponent x + 1)"
proof (cases "1 \<le> \<bar>x\<bar>")
  case True
  from assms(2) have "\<bar>x\<bar> < 2 ^ 1024" unfolding overflow_bound_def .
  from halvings_bounds [OF True this]
  have "2 ^ halvings 1024 \<bar>x\<bar> \<le> \<bar>x\<bar>" "\<bar>x\<bar> < 2 * 2 ^ halvings 1024 \<bar>x\<bar>" by blast+
  moreover have "exponent x = int (halvings 1024 \<bar>x\<bar>)" using True by (simp add: exponent_def)
  ultimately show ?thesis
    by (simp only: powi_nat power_int_add [of "2 :: real", simplified] power_int_1_right) simp
next
  case False
  let ?k = "doublings 1022 \<bar>x\<bar>"
  have e: "exponent x = - int ?k" using False by (simp add: exponent_def)
  have pos: "0 < \<bar>x\<bar>"
    using assms(1) zero_less_power_int [of "2 :: real" "- 1022"] by linarith
  have "(2 :: real) powi (- 1022) = 1 / 2 ^ 1022"
    using powi_neg_nat [of 1022] by simp
  with assms(1) have "1 / 2 ^ 1022 \<le> \<bar>x\<bar>" by (simp only:)
  then have "1 \<le> \<bar>x\<bar> * 2 ^ 1022" by (simp only: pos_divide_le_eq zero_less_power zero_less_numeral)
  from doublings_bounds [OF pos _ this] False
  have k: "0 < ?k" "1 \<le> \<bar>x\<bar> * 2 ^ ?k" "\<bar>x\<bar> * 2 ^ ?k < 2" by simp_all
  from k(2) have "1 / 2 ^ ?k \<le> \<bar>x\<bar>" by (simp add: field_simps)
  then have lo: "2 powi (- int ?k) \<le> \<bar>x\<bar>" by (simp only: powi_neg_nat)
  from k(1) have "- int ?k + 1 = - int (?k - 1)" by simp
  then have "(2 :: real) powi (- int ?k + 1) = 1 / 2 ^ (?k - 1)" by (simp only: powi_neg_nat)
  moreover from k(1) have "(2 :: real) ^ ?k = 2 * 2 ^ (?k - 1)"
    by (cases ?k) simp_all
  with k(3) have "\<bar>x\<bar> < 1 / 2 ^ (?k - 1)" by (simp add: field_simps)
  ultimately have "\<bar>x\<bar> < 2 powi (- int ?k + 1)" by simp
  with lo e show ?thesis by simp
qed

lemma binade_unique:
  assumes "2 powi a \<le> (y :: real)" "y < 2 powi (a + 1)" "2 powi b \<le> y" "y < 2 powi (b + 1)"
  shows "a = b"
proof -
  have "(2 :: real) powi a < 2 powi (b + 1)" using assms by linarith
  then have "a < b + 1" by (rule powi_less_cancel)
  moreover have "(2 :: real) powi b < 2 powi (a + 1)" using assms by linarith
  then have "b < a + 1" by (rule powi_less_cancel)
  ultimately show ?thesis by simp
qed

lemma overflow_bound_powi: "overflow_bound = 2 powi 1024"
  unfolding overflow_bound_def using powi_nat [of 1024] by simp

lemma exponent_eq:
  assumes "2 powi k \<le> \<bar>x\<bar>" "\<bar>x\<bar> < 2 powi (k + 1)" "- 1022 \<le> k" "k < 1024"
  shows "exponent x = k"
proof -
  have "(2 :: real) powi (- 1022) \<le> 2 powi k"
    using assms(3) by (intro power_int_increasing) simp_all
  with assms(1) have lo: "2 powi (- 1022) \<le> \<bar>x\<bar>" by linarith
  have "(2 :: real) powi (k + 1) \<le> 2 powi 1024"
    using assms(4) by (intro power_int_increasing) simp_all
  with assms(2) have hi: "\<bar>x\<bar> < overflow_bound" unfolding overflow_bound_powi by linarith
  from exponent_bounds [OF lo hi] assms(1,2) show ?thesis
    by (blast intro: binade_unique)
qed

lemma exponent_overflow:
  assumes "overflow_bound \<le> \<bar>x\<bar>"
  shows "exponent x = 1024"
proof -
  from assms have big: "2 ^ 1024 \<le> \<bar>x\<bar>" unfolding overflow_bound_def .
  have "(1 :: real) \<le> 2 ^ 1024" by (rule one_le_power) simp
  with big have "1 \<le> \<bar>x\<bar>" by linarith
  with halvings_capped [OF big] show ?thesis by (simp add: exponent_def)
qed

lemma ulp_pos: "0 < ulp x"
  by (simp add: ulp_def zero_less_power_int)

lemma ulp_inverse:
  assumes "exponent x \<le> 52"
  shows "ulp x = 1 / 2 ^ nat (52 - exponent x)"
proof -
  have "exponent x - 52 = - int (nat (52 - exponent x))" using assms by simp
  then show ?thesis unfolding ulp_def by (simp only: powi_neg_nat)
qed

subsection \<open>Rounding to a double\<close>

lemma bound_53: "(2 :: real) ^ 53 < overflow_bound"
  unfolding overflow_bound_def by (rule power_strict_increasing) simp_all

lemma to_double_zero: "to_double 0 = Num 0"
proof -
  have "(0 :: real) < overflow_bound" using bound_53 by (rule less_trans [rotated]) simp
  then show ?thesis by (simp add: to_double_def round_half_even_zero)
qed

lemma to_double_exact:
  assumes "x / ulp x = of_int j" and "\<bar>x\<bar> < overflow_bound"
  shows "to_double x = Num x"
proof -
  have "of_int j * ulp x = x"
    using assms(1) ulp_pos [of x] by (simp add: field_simps)
  with assms show ?thesis by (simp add: to_double_def round_half_even_int)
qed

text \<open>Every integer up to \<open>2 ^ 53\<close> in magnitude is a double.\<close>

lemma to_double_of_int:
  assumes "\<bar>m\<bar> \<le> 2 ^ 53"
  shows "to_double (of_int m) = Num (of_int m)"
proof (cases "m = 0")
  case True
  then show ?thesis by (simp add: to_double_zero)
next
  case False
  let ?x = "of_int m :: real"
  let ?e = "exponent ?x"
  from False have "1 \<le> \<bar>m\<bar>" by simp
  then have "(of_int 1 :: real) \<le> of_int \<bar>m\<bar>" by (simp only: of_int_le_iff)
  then have one: "1 \<le> \<bar>?x\<bar>" by simp
  from assms have "(of_int \<bar>m\<bar> :: real) \<le> of_int (2 ^ 53)" by (simp only: of_int_le_iff)
  then have top: "\<bar>?x\<bar> \<le> 2 ^ 53" by simp
  with bound_53 have fin: "\<bar>?x\<bar> < overflow_bound" by linarith
  have "(2 :: real) powi (- 1022) \<le> 2 powi 0" by (intro power_int_increasing) simp_all
  with one have lo: "2 powi (- 1022) \<le> \<bar>?x\<bar>" by simp
  from exponent_bounds [OF lo fin]
  have b: "2 powi ?e \<le> \<bar>?x\<bar>" "\<bar>?x\<bar> < 2 powi (?e + 1)" by simp_all
  have p53: "(2 :: real) powi 53 = 2 ^ 53" using powi_nat [of 53] by simp
  from b(1) top have "(2 :: real) powi ?e \<le> 2 powi 53" unfolding p53 by linarith
  then have e53: "?e \<le> 53" by (rule powi_le_cancel)
  have "\<exists>j. ?x / ulp ?x = of_int j"
  proof (cases "?e \<le> 52")
    case True
    have "?x / ulp ?x = of_int (m * 2 ^ nat (52 - ?e))"
      by (simp add: ulp_inverse [OF True])
    then show ?thesis ..
  next
    case False
    with e53 have e: "?e = 53" by simp
    with b(1) top have "\<bar>?x\<bar> = 2 ^ 53" unfolding p53 [symmetric] by simp
    then have "(of_int \<bar>m\<bar> :: real) = of_int (2 ^ 53)" by simp
    then have "\<bar>m\<bar> = 2 ^ 53" by (simp only: of_int_eq_iff)
    then have "m = 2 ^ 53 \<or> m = - (2 ^ 53)" by linarith
    then have "?x / 2 = of_int (2 ^ 52) \<or> ?x / 2 = of_int (- (2 ^ 52))" by auto
    moreover have "ulp ?x = 2" by (simp add: ulp_def e)
    ultimately show ?thesis by metis
  qed
  then obtain j where "?x / ulp ?x = of_int j" ..
  from to_double_exact [OF this fin] show ?thesis .
qed


text \<open>A result of \<open>2 ^ 1024\<close> or more is \<open>Infinity\<close>.\<close>

lemma to_double_overflow:
  assumes "overflow_bound \<le> x"
  shows "to_double x = PosInfinity"
proof -
  let ?j = "round_half_even (x / ulp x)"
  have "(0 :: real) < overflow_bound" using bound_53 by (rule less_trans [rotated]) simp
  with assms have pos: "0 < x" by linarith
  then have "overflow_bound \<le> \<bar>x\<bar>" using assms by simp
  then have "exponent x = 1024" by (rule exponent_overflow)
  then have u: "ulp x = 2 ^ 972" using powi_nat [of 972] by (simp add: ulp_def)
  have split: "overflow_bound = 2 ^ 52 * (2 :: real) ^ 972"
    unfolding overflow_bound_def power_add [symmetric] by simp
  from assms have "2 ^ 52 * ulp x \<le> x" unfolding split u .
  then have "of_int (2 ^ 52) \<le> x / ulp x" using ulp_pos [of x] by (simp add: field_simps)
  then have "2 ^ 52 \<le> ?j" by (rule round_half_even_ge)
  then have "(of_int (2 ^ 52) :: real) \<le> of_int ?j" by (simp only: of_int_le_iff)
  then have "(2 :: real) ^ 52 \<le> of_int ?j" by simp
  then have "(2 :: real) ^ 52 * ulp x \<le> of_int ?j * ulp x"
    using ulp_pos [of x] by (intro mult_right_mono) simp_all
  then have "overflow_bound \<le> of_int ?j * ulp x" unfolding split u .
  then have "overflow_bound \<le> \<bar>of_int ?j * ulp x\<bar>" by linarith
  with pos show ?thesis by (simp add: to_double_def Let_def)
qed


text \<open>
  The rounding of a given value, from its binade \<open>k\<close> and the multiple \<open>j\<close> of the spacing
  that is nearest to it.
\<close>

lemma to_double_eval:
  assumes "2 powi k \<le> \<bar>x\<bar>" "\<bar>x\<bar> < 2 powi (k + 1)" "- 1022 \<le> k" "k < 1024"
    and "round_half_even (x / 2 powi (k - 52)) = j"
    and "\<bar>of_int j * 2 powi (k - 52) :: real\<bar> < 2 ^ n" "n \<le> 1024"
  shows "to_double x = Num (of_int j * 2 powi (k - 52))"
proof -
  have e: "exponent x = k" using assms(1-4) by (rule exponent_eq)
  have "(2 :: real) ^ n \<le> 2 ^ 1024" using assms(7) by (intro power_increasing) simp_all
  with assms(6) have "\<not> overflow_bound \<le> \<bar>of_int j * 2 powi (k - 52)\<bar>"
    unfolding overflow_bound_def by linarith
  with assms(5) show ?thesis by (simp add: to_double_def ulp_def e Let_def)
qed

lemma to_double_numeral:
  assumes "(numeral n :: int) \<le> 2 ^ 53"
  shows "to_double (numeral n) = Num (numeral n)"
proof -
  from assms have "\<bar>numeral n :: int\<bar> \<le> 2 ^ 53" by simp
  from to_double_of_int [OF this] show ?thesis by simp
qed

section \<open>Properties of the simulated distributions\<close>

lemma map_enumerate_snd: "map (\<lambda>p. f (snd p)) (enumerate n xs) = map f xs"
  by (induction xs arbitrary: n) simp_all





subsection \<open>Proportional shares\<close>

lemma totalBalance_mockHolders5: "totalBalance mockHolders5 = Num 3000000"
  by (simp add: totalBalance_def mockHolders5_def to_double_numeral)

lemma payouts_proportional:
  "payouts (proportionalDistribution hs t) = map (share t (totalBalance hs)) hs"
  by (simp add: payouts_def proportionalDistribution_def Let_def case_prod_unfold comp_def
        map_enumerate_snd)

lemma payouts_mockHolders5:
  "payouts (proportionalDistribution mockHolders5 t) = map (share t (Num 3000000)) mockHolders5"
  by (simp add: payouts_proportional totalBalance_mockHolders5)










lemma share_rounded:
  assumes "to_double (t * b) = Num p" and "W \<noteq> 0" and "to_double (p / W) = Num q"
    and "\<lfloor>q\<rfloor> = s"
  shows "share t (Num W) \<lparr>address = a, balance = b\<rparr> = Num (of_int s)"
  using assms by (simp add: share_def)








text \<open>
  Claim C3, as the code has it. The proportional demo computes each share with the
  plain arithmetic of numbers: the product \<open>totalAmount * balance\<close> is rounded to a
  double, not widened, and nothing checks it. The function has no failure of its own:
  for every \<open>totalAmount\<close> it completes and reports five shares, each the floor of the
  rounded quotient of the rounded product. A product of \<open>2 ^ 1024\<close> or more becomes
  \<open>Infinity\<close>, and so does the share, silently.
\<close>

theorem proportional_unchecked:
  "\<exists>report.
     simulateDistribution_proportional totalAmount = Inr report
   \<and> payouts report
     = map (\<lambda>holder. Math_floor (js_divide (to_double (totalAmount * balance holder))
                                    (Num 3000000)))
         mockHolders5
   \<and> (2 ^ 1024 \<le> totalAmount * 200000 \<longrightarrow> payouts report = replicate 5 PosInfinity)"
proof -
  have shares: "payouts (proportionalDistribution mockHolders5 totalAmount)
     = map (\<lambda>holder. Math_floor (js_divide (to_double (totalAmount * balance holder))
                                    (Num 3000000)))
         mockHolders5"
    unfolding payouts_mockHolders5 by (simp add: share_def)
  have "Math_floor (js_divide (to_double (totalAmount * b)) (Num 3000000)) = PosInfinity"
    if "2 ^ 1024 \<le> totalAmount * 200000" "200000 \<le> b" for b
  proof -
    from that(1) have pos: "0 \<le> totalAmount"
      by (simp add: zero_le_mult_iff order_trans [OF zero_le_power [of 2 1024]])
    then have "totalAmount * 200000 \<le> totalAmount * b"
      using that(2) by (intro mult_left_mono)
    with that(1) have "overflow_bound \<le> totalAmount * b"
      unfolding overflow_bound_def by linarith
    then have "to_double (totalAmount * b) = PosInfinity" by (rule to_double_overflow)
    then show ?thesis by simp
  qed
  moreover have "replicate 5 PosInfinity
      = [PosInfinity, PosInfinity, PosInfinity, PosInfinity, PosInfinity]"
    by (simp add: numeral_eq_Suc)
  ultimately have "2 ^ 1024 \<le> totalAmount * 200000 \<Longrightarrow>
      map (\<lambda>holder. Math_floor (js_divide (to_double (totalAmount * balance holder))
                                    (Num 3000000)))
         mockHolders5 = replicate 5 PosInfinity"
    by (simp add: mockHolders5_def)
  with shares show ?thesis
    by (simp add: simulateDistribution_proportional_def)
qed

lemma share_imprecise:
  "share (2 ^ 63) (Num 3000000) \<lparr>address = a, balance = 1000000\<rparr> = Num 3074457345618258432"
proof -
  have p: "to_double (2 ^ 63 * 1000000) = Num 9223372036854775808000000"
    using to_double_eval [of 82 "2 ^ 63 * 1000000" 8589934592000000 83]
    by (simp add: round_half_even_def Let_def)
  have q: "to_double (9223372036854775808000000 / 3000000) = Num 3074457345618258432"
    using to_double_eval [of 61 "9223372036854775808000000 / 3000000" 6004799503160661 62]
    by (simp add: round_half_even_def Let_def)
  from share_rounded [OF p _ q, of 3074457345618258432 a] show ?thesis by simp
qed

text \<open>
  At \<open>totalAmount = 2 ^ 1007\<close> every product is out of range and every share is
  \<open>Infinity\<close>. At \<open>totalAmount = 2 ^ 63\<close> the first share is 3074457345618258432, where
  the floor of the exact quotient is 3074457345618258602.
\<close>

theorem proportional_unchecked_witness:
  "2 ^ 1024 \<le> (2 ^ 1007 :: real) * 200000
   \<and> simulateDistribution_proportional (2 ^ 1007)
       = Inr (proportionalDistribution mockHolders5 (2 ^ 1007))
   \<and> payouts (proportionalDistribution mockHolders5 (2 ^ 1007)) = replicate 5 PosInfinity
   \<and> hd (payouts (proportionalDistribution mockHolders5 (2 ^ 63))) = Num 3074457345618258432
   \<and> \<lfloor>2 ^ 63 * balance (hd mockHolders5) / (3000000 :: real)\<rfloor> = 3074457345618258602"
proof -
  have "(2 :: real) ^ 1024 = 2 ^ 1007 * 2 ^ 17" unfolding power_add [symmetric] by simp
  also have "\<dots> \<le> 2 ^ 1007 * 200000" by (intro mult_left_mono) simp_all
  finally have big: "2 ^ 1024 \<le> (2 ^ 1007 :: real) * 200000" .
  from proportional_unchecked [of "2 ^ 1007"] big
  obtain report where
    "simulateDistribution_proportional (2 ^ 1007) = Inr report"
    "payouts report = replicate 5 PosInfinity"
    by blast
  then have 1: "simulateDistribution_proportional (2 ^ 1007)
       = Inr (proportionalDistribution mockHolders5 (2 ^ 1007))
     \<and> payouts (proportionalDistribution mockHolders5 (2 ^ 1007)) = replicate 5 PosInfinity"
    by (simp add: simulateDistribution_proportional_def)
  have 2: "hd (payouts (proportionalDistribution mockHolders5 (2 ^ 63)))
      = Num 3074457345618258432"
    unfolding payouts_mockHolders5 by (simp only: mockHolders5_def list.map list.sel share_imprecise)
  have 3: "\<lfloor>2 ^ 63 * balance (hd mockHolders5) / (3000000 :: real)\<rfloor> = 3074457345618258602"
    by (simp add: mockHolders5_def)
  from big 1 2 3 show ?thesis by blast
qed

text \<open>
  Claim C3 as the specification states it fails at \<open>totalAmount = 2 ^ 63\<close>: the product
  with the first balance is beyond the 64-bit range and beyond \<open>2 ^ 53\<close>, where numbers
  stop being exact, and the run is no failure.
\<close>

theorem proportional_no_overflow_failure:
  "2 ^ 64 - 1 < (2 ^ 63 :: real) * balance (hd mockHolders5)
   \<and> 2 ^ 53 < (2 ^ 63 :: real) * balance (hd mockHolders5)
   \<and> \<not> isl (simulateDistribution_proportional (2 ^ 63))"
  by (simp add: simulateDistribution_proportional_def mockHolders5_def)

section \<open>Properties of the holder refresh\<close>

subsection \<open>The holder map\<close>

lemma callback_cases:
  "forEach_callback onCurve m info =
     (if eligible onCurve info
      then (case info of Some (TokenAccount key amt) \<Rightarrow>
              AList.update key ((case map_of m key of Some v \<Rightarrow> v | None \<Rightarrow> 0) + amt) m)
      else m)"
  by (cases "(onCurve, m, info)" rule: forEach_callback.cases) (auto simp: Let_def)

lemma holderMap_distinct: "distinct (map fst (holderMap_of onCurve accountInfos))"
proof (induction accountInfos rule: rev_induct)
  case Nil
  then show ?case by simp
next
  case (snoc info infos)
  then show ?case
    by (cases "(onCurve, holderMap_of onCurve infos, info)" rule: forEach_callback.cases)
       (simp_all add: Let_def distinct_update)
qed

lemma owned_Nil: "owned [] k = 0"
  by (simp add: owned_def)

lemma owned_snoc: "owned (infos @ [info]) k = owned infos k + contribution k info"
  by (simp add: owned_def)

lemma holderMap_lookup:
  "map_of (holderMap_of onCurve accountInfos) k =
     (if onCurve k \<and> 0 < owned accountInfos k then Some (owned accountInfos k) else None)"
proof (induction accountInfos rule: rev_induct)
  case Nil
  then show ?case by (simp add: owned_Nil)
next
  case (snoc info infos)
  show ?case
  proof (cases "(onCurve, holderMap_of onCurve infos, info)" rule: forEach_callback.cases)
    case (1 oc hm)
    with snoc show ?thesis by (simp add: owned_snoc)
  next
    case (2 oc hm)
    with snoc show ?thesis by (simp add: owned_snoc)
  next
    case (3 oc hm key amt)
    with snoc show ?thesis
      by (auto simp: owned_snoc Let_def update_conv' split: option.splits)
  qed
qed

lemma holderMap_keys:
  "fst ` set (holderMap_of onCurve accountInfos) = {k. onCurve k \<and> 0 < owned accountInfos k}"
proof -
  have "fst ` set (holderMap_of onCurve accountInfos) = dom (map_of (holderMap_of onCurve accountInfos))"
    by (simp add: dom_map_of_conv_image_fst)
  also have "\<dots> = {k. onCurve k \<and> 0 < owned accountInfos k}"
    by (auto simp: holderMap_lookup dom_def)
  finally show ?thesis .
qed

lemma holderMap_entry:
  assumes "(k, v) \<in> set (holderMap_of onCurve accountInfos)"
  shows "onCurve k \<and> 0 < v \<and> v = owned accountInfos k"
proof -
  from assms holderMap_distinct have "map_of (holderMap_of onCurve accountInfos) k = Some v"
    by simp
  then show ?thesis by (auto simp: holderMap_lookup split: if_splits)
qed

lemma hit_contribution:
  "eligible onCurve info \<and> 0 < contribution k info \<longleftrightarrow> onCurve k \<and> 0 < contribution k info"
  by (cases "(k, info)" rule: contribution.cases) auto

lemma hit_iff:
  "(\<exists>info\<in>set accountInfos. eligible onCurve info \<and> 0 < contribution k info)
     \<longleftrightarrow> onCurve k \<and> 0 < owned accountInfos k"
proof -
  have "0 < owned accountInfos k \<longleftrightarrow> (\<exists>info\<in>set accountInfos. 0 < contribution k info)"
    by (induction accountInfos) (auto simp: owned_def)
  then show ?thesis using hit_contribution by blast
qed

lemma prefix_before_hit:
  assumes "hit \<in> set infos" "\<not> skipped hit"
  shows "length (takeWhile skipped infos) < length infos"
  using assms by (induction infos) auto

lemma first_seen_old:
  assumes "onCurve k \<and> 0 < owned infos k"
  shows "first_seen onCurve (infos @ [info]) k = first_seen onCurve infos k
       \<and> first_seen onCurve infos k < length infos"
proof -
  let ?P = "\<lambda>info. \<not> (eligible onCurve info \<and> 0 < contribution k info)"
  from assms hit_iff [of infos onCurve k] obtain i where i: "i \<in> set infos" "\<not> ?P i" by blast
  then have "first_seen onCurve (infos @ [info]) k = first_seen onCurve infos k"
    by (simp add: first_seen_def takeWhile_append1)
  moreover from i have "first_seen onCurve infos k < length infos"
    unfolding first_seen_def by (rule prefix_before_hit)
  ultimately show ?thesis by simp
qed

lemma first_seen_new:
  assumes "\<not> (onCurve k \<and> 0 < owned infos k)" "eligible onCurve info" "0 < contribution k info"
  shows "first_seen onCurve (infos @ [info]) k = length infos"
proof -
  let ?P = "\<lambda>info. \<not> (eligible onCurve info \<and> 0 < contribution k info)"
  from assms(1) hit_iff [of infos onCurve k] have "\<forall>i\<in>set infos. ?P i" by blast
  then have "takeWhile ?P (infos @ [info]) = infos @ takeWhile ?P [info]"
    by (simp add: takeWhile_append2)
  with assms(2,3) show ?thesis by (simp add: first_seen_def)
qed

lemma holderMap_first_seen:
  "sorted_wrt (\<lambda>a b. first_seen onCurve accountInfos a < first_seen onCurve accountInfos b)
     (map fst (holderMap_of onCurve accountInfos))"
proof (induction accountInfos rule: rev_induct)
  case Nil
  then show ?case by simp
next
  case (snoc info infos)
  let ?hm = "holderMap_of onCurve infos"
  let ?fs = "first_seen onCurve infos"
  let ?fs' = "first_seen onCurve (infos @ [info])"
  have keys: "set (map fst ?hm) = {k. onCurve k \<and> 0 < owned infos k}"
    using holderMap_keys [of onCurve infos] by simp
  have same: "?fs' k = ?fs k" and small: "?fs k < length infos" if "k \<in> set (map fst ?hm)" for k
    using that keys first_seen_old [of onCurve k infos info] by auto
  have old: "sorted_wrt (\<lambda>a b. ?fs' a < ?fs' b) (map fst ?hm)"
    using snoc.IH same by (simp add: sorted_wrt_iff_nth_less)
  show ?case
  proof (cases "eligible onCurve info")
    case False
    then have "forEach_callback onCurve ?hm info = ?hm"
      using callback_cases [of onCurve ?hm info] by simp
    then show ?thesis using old by simp
  next
    case True
    then obtain key amt where info: "info = Some (TokenAccount key amt)" "onCurve key" "amt \<noteq> 0"
      by (cases "(onCurve, info)" rule: eligible.cases) auto
    let ?v = "(case map_of ?hm key of Some v \<Rightarrow> v | None \<Rightarrow> 0) + amt"
    have step: "holderMap_of onCurve (infos @ [info]) = AList.update key ?v ?hm"
      using info by (simp add: Let_def)
    show ?thesis
    proof (cases "key \<in> set (map fst ?hm)")
      case True
      then show ?thesis using old by (simp add: step update_keys del: foldl_append)
    next
      case False
      with keys have absent: "\<not> (onCurve key \<and> 0 < owned infos key)" by blast
      have new: "?fs' key = length infos"
        using first_seen_new [of onCurve key infos info] absent info by simp
      have "sorted_wrt (\<lambda>a b. ?fs' a < ?fs' b) (map fst ?hm @ [key])"
        using old same small new by (auto simp: sorted_wrt_append)
      with False show ?thesis by (simp add: step update_keys del: foldl_append)
    qed
  qed
qed

subsection \<open>The stable sort\<close>

lemma set_insert_sorted: "set (insert_sorted c x ys) = insert x (set ys)"
  by (induction ys) auto

lemma length_insert_sorted: "length (insert_sorted c x ys) = Suc (length ys)"
  by (induction ys) auto

lemma set_Array_sort: "set (Array_sort c xs) = set xs"
  by (induction xs) (simp_all add: Array_sort_def set_insert_sorted)

lemma length_Array_sort: "length (Array_sort c xs) = length xs"
  by (induction xs) (simp_all add: Array_sort_def length_insert_sorted)

lemma distinct_insert_sorted:
  "distinct (map f (insert_sorted c x ys)) \<longleftrightarrow> f x \<notin> f ` set ys \<and> distinct (map f ys)"
  by (induction ys) (auto simp: set_insert_sorted)

lemma distinct_Array_sort: "distinct (map f (Array_sort c xs)) \<longleftrightarrow> distinct (map f xs)"
  by (induction xs) (auto simp: Array_sort_def distinct_insert_sorted set_insert_sorted
        set_Array_sort [unfolded Array_sort_def])

lemma insert_sorted_ranked:
  assumes "sorted_wrt (ranked_before pos) ys" "\<forall>y\<in>set ys. pos (fst x) < pos (fst y)"
  shows "sorted_wrt (ranked_before pos) (insert_sorted (\<lambda>a b. BN_cmp (snd b) (snd a)) x ys)"
  using assms
proof (induction ys)
  case Nil
  then show ?case by simp
next
  case (Cons y ys)
  show ?case
  proof (cases "snd y \<le> snd x")
    case True
    have "ranked_before pos x z" if "z \<in> set (y # ys)" for z
    proof -
      from that Cons.prems(1) have "snd z \<le> snd y" by (auto simp: ranked_before_def)
      with True that Cons.prems(2) show ?thesis by (auto simp: ranked_before_def)
    qed
    with True Cons.prems(1) show ?thesis by (simp add: BN_cmp_def)
  next
    case False
    then have "ranked_before pos y x" by (simp add: ranked_before_def)
    with False Cons show ?thesis by (auto simp: BN_cmp_def set_insert_sorted)
  qed
qed

lemma Array_sort_ranked:
  assumes "sorted_wrt (\<lambda>a b. pos a < pos b) (map fst xs)"
  shows "sorted_wrt (ranked_before pos) (Array_sort (\<lambda>a b. BN_cmp (snd b) (snd a)) xs)"
  using assms
proof (induction xs)
  case Nil
  then show ?case by (simp add: Array_sort_def)
next
  case (Cons x xs)
  then have "sorted_wrt (ranked_before pos) (Array_sort (\<lambda>a b. BN_cmp (snd b) (snd a)) xs)"
    and "\<forall>y\<in>set (Array_sort (\<lambda>a b. BN_cmp (snd b) (snd a)) xs). pos (fst x) < pos (fst y)"
    by (auto simp: set_Array_sort)
  then have "sorted_wrt (ranked_before pos)
      (insert_sorted (\<lambda>a b. BN_cmp (snd b) (snd a)) x (Array_sort (\<lambda>a b. BN_cmp (snd b) (snd a)) xs))"
    by (rule insert_sorted_ranked)
  then show ?case by (simp add: Array_sort_def)
qed

subsection \<open>The ranking\<close>

lemma rankHolders_eq:
  "rankHolders onCurve accountInfos limit =
     map (\<lambda>(addr, bal). \<lparr>address = addr, balance = bal\<rparr>)
       (take limit (Array_sort (\<lambda>a b. BN_cmp (snd b) (snd a)) (holderMap_of onCurve accountInfos)))"
  by (simp add: rankHolders_def Let_def)

lemma rankHolders_entries:
  "map (\<lambda>h. (address h, balance h)) (rankHolders onCurve accountInfos limit) =
     take limit (Array_sort (\<lambda>a b. BN_cmp (snd b) (snd a)) (holderMap_of onCurve accountInfos))"
  by (simp add: rankHolders_eq comp_def case_prod_unfold)

lemma rankHolders_length:
  "length (rankHolders onCurve accountInfos limit)
     = min limit (card {k. onCurve k \<and> 0 < owned accountInfos k})"
proof -
  have "length (holderMap_of onCurve accountInfos) = card (fst ` set (holderMap_of onCurve accountInfos))"
    using distinct_card [OF holderMap_distinct [of onCurve accountInfos]] by simp
  then show ?thesis
    by (simp add: rankHolders_eq length_Array_sort holderMap_keys min.commute)
qed

lemma rankHolders_distinct: "distinct (map address (rankHolders onCurve accountInfos limit))"
proof -
  have "map address (rankHolders onCurve accountInfos limit)
      = take limit (map fst (Array_sort (\<lambda>a b. BN_cmp (snd b) (snd a)) (holderMap_of onCurve accountInfos)))"
    by (simp add: rankHolders_eq comp_def case_prod_unfold take_map)
  then show ?thesis
    by (simp add: distinct_take distinct_Array_sort holderMap_distinct)
qed

lemma rankHolders_member:
  assumes "h \<in> set (rankHolders onCurve accountInfos limit)"
  shows "onCurve (address h) \<and> 0 < balance h \<and> balance h = owned accountInfos (address h)"
proof -
  from assms have "(address h, balance h) \<in> set (map (\<lambda>h. (address h, balance h)) (rankHolders onCurve accountInfos limit))"
    by force
  then have "(address h, balance h) \<in> set (holderMap_of onCurve accountInfos)"
    unfolding rankHolders_entries by (auto dest: in_set_takeD simp: set_Array_sort)
  then show ?thesis by (rule holderMap_entry)
qed

lemma rankHolders_sorted:
  "sorted_wrt
     (\<lambda>a b. balance b < balance a
          \<or> (balance a = balance b
              \<and> first_seen onCurve accountInfos (address a) < first_seen onCurve accountInfos (address b)))
     (rankHolders onCurve accountInfos limit)"
proof -
  let ?pos = "first_seen onCurve accountInfos"
  have "sorted_wrt (ranked_before ?pos)
          (Array_sort (\<lambda>a b. BN_cmp (snd b) (snd a)) (holderMap_of onCurve accountInfos))"
    by (rule Array_sort_ranked) (rule holderMap_first_seen)
  then have "sorted_wrt (ranked_before ?pos)
          (take limit (Array_sort (\<lambda>a b. BN_cmp (snd b) (snd a)) (holderMap_of onCurve accountInfos)))"
    by (rule sorted_wrt_take)
  then show ?thesis
    by (simp add: rankHolders_eq sorted_wrt_map ranked_before_def [abs_def] case_prod_unfold)
qed

lemma rankHolders_empty_iff:
  "rankHolders onCurve accountInfos limit = []
     \<longleftrightarrow> limit = 0 \<or> (\<forall>info\<in>set accountInfos. \<not> eligible onCurve info)"
proof -
  have "(\<exists>info\<in>set accountInfos. eligible onCurve info)
          \<longleftrightarrow> (\<exists>k. \<exists>info\<in>set accountInfos. eligible onCurve info \<and> 0 < contribution k info)"
  proof -
    have "eligible onCurve info \<Longrightarrow> \<exists>k. 0 < contribution k info" for info
      by (cases "(onCurve, info)" rule: eligible.cases) auto
    then show ?thesis by blast
  qed
  also have "\<dots> \<longleftrightarrow> {k. onCurve k \<and> 0 < owned accountInfos k} \<noteq> {}"
    using hit_iff [of accountInfos onCurve] by auto
  also have "\<dots> \<longleftrightarrow> holderMap_of onCurve accountInfos \<noteq> []"
    unfolding holderMap_keys [of onCurve accountInfos, symmetric] by simp
  finally have "holderMap_of onCurve accountInfos = [] \<longleftrightarrow> (\<forall>info\<in>set accountInfos. \<not> eligible onCurve info)"
    by blast
  moreover have "rankHolders onCurve accountInfos limit = []
     \<longleftrightarrow> limit = 0 \<or> holderMap_of onCurve accountInfos = []"
    using length_Array_sort [of "\<lambda>a b. BN_cmp (snd b) (snd a)" "holderMap_of onCurve accountInfos"]
    by (auto simp: rankHolders_eq)
  ultimately show ?thesis by simp
qed

lemma fetchTopHolders_Inr:
  assumes "fetchTopHolders c limit w = (Inr holders, w')"
  shows "holders = rankHolders (isOnCurve c) (candidates c limit w) limit"
  using assms
  by (auto simp: fetchTopHolders_def candidates_def query_def Let_def rankHolders_def Array_sort_def
           split: sum.splits option.splits if_splits prod.splits)

subsection \<open>The refresh as a whole\<close>

lemmas bot_defs = main_def getPendingCreatorRewards_def query_def collectCreatorFees_def
  sendAndConfirm_def fetchTopHolders_def rankHolders_def Array_sort_def BN_cmp_def
  distributeRewards_def to_double_numeral LAMPORTS_PER_SOL_def cron_bot_live_def exit_status_def

lemmas sample_defs = sample_chain_def sample_world_def sample_account_def

lemma sample_fetch:
  "fetchTopHolders
     (sample_chain [''acct1'', ''acct2'', ''acct3'', ''acct4'', ''acct5'', ''acct6'', ''acct7''])
     20 sample_world
   = (Inr [\<lparr>address = ''alice'', balance = 7\<rparr>, \<lparr>address = ''bob'', balance = 7\<rparr>],
      sample_world\<lparr>requests :=
        [GetTokenLargestAccounts,
         GetMultipleAccountsInfo
           [''acct1'', ''acct2'', ''acct3'', ''acct4'', ''acct5'', ''acct6'', ''acct7'']]\<rparr>)"
  by (simp add: bot_defs sample_defs)

text \<open>
  Claim C4. Whenever a refresh returns holders, it returns at most \<open>limit\<close> of them, as
  many as there are addresses to rank up to \<open>limit\<close>; no address occurs twice; every
  returned address can receive a direct transfer and has a balance above zero; and
  that balance is the sum of all the balances the candidates hold for the address. The
  candidates are the account infos the refresh reads.
\<close>

theorem refresh_filters_merges_truncates:
  assumes "fetchTopHolders c limit w = (Inr holders, w')"
  shows "length holders \<le> limit
       \<and> length holders = min limit (card {k. isOnCurve c k \<and> 0 < owned (candidates c limit w) k})
       \<and> distinct (map address holders)
       \<and> (\<forall>h\<in>set holders.
             isOnCurve c (address h) \<and> 0 < balance h
           \<and> balance h = owned (candidates c limit w) (address h))"
proof -
  have holders: "holders = rankHolders (isOnCurve c) (candidates c limit w) limit"
    using assms by (rule fetchTopHolders_Inr)
  have size: "length holders
      = min limit (card {k. isOnCurve c k \<and> 0 < owned (candidates c limit w) k})"
    unfolding holders by (rule rankHolders_length)
  then have bound: "length holders \<le> limit" by simp
  have merged: "distinct (map address holders)"
    unfolding holders by (rule rankHolders_distinct)
  have entries: "\<forall>h\<in>set holders.
             isOnCurve c (address h) \<and> 0 < balance h
           \<and> balance h = owned (candidates c limit w) (address h)"
    unfolding holders using rankHolders_member by blast
  from bound size merged entries show ?thesis by blast
qed

text \<open>
  On the sample ledger the two accounts of \<open>alice\<close> are merged into one entry of 7; the
  program-derived owner, the empty account, the undecodable one and the missing one
  are left out.
\<close>

theorem refresh_filters_merges_truncates_witness:
  "fst (fetchTopHolders
     (sample_chain [''acct1'', ''acct2'', ''acct3'', ''acct4'', ''acct5'', ''acct6'', ''acct7''])
     20 sample_world)
     = Inr [\<lparr>address = ''alice'', balance = 7\<rparr>, \<lparr>address = ''bob'', balance = 7\<rparr>]
   \<and> (2::nat) \<le> 20
   \<and> owned (candidates
        (sample_chain [''acct1'', ''acct2'', ''acct3'', ''acct4'', ''acct5'', ''acct6'', ''acct7''])
        20 sample_world) ''alice'' = 7
   \<and> owned (candidates
        (sample_chain [''acct1'', ''acct2'', ''acct3'', ''acct4'', ''acct5'', ''acct6'', ''acct7''])
        20 sample_world) ''bob'' = 7"
  using refresh_filters_merges_truncates [OF sample_fetch]
  by (simp add: sample_fetch)

text \<open>
  Claim C9. Whenever a refresh returns holders, they are in descending order of balance,
  and holders of equal balance are in the order in which their addresses were first
  seen among the candidates that pass the filter. The result is a function of the
  candidates, of the eligibility of their owners and of \<open>limit\<close>, so equal inputs give
  equal outputs.
\<close>

theorem refresh_sorted_stable:
  assumes "fetchTopHolders c limit w = (Inr holders, w')"
  shows "holders = rankHolders (isOnCurve c) (candidates c limit w) limit
       \<and> sorted_wrt
           (\<lambda>a b. balance b < balance a
                \<or> (balance a = balance b
                    \<and> first_seen (isOnCurve c) (candidates c limit w) (address a)
                        < first_seen (isOnCurve c) (candidates c limit w) (address b)))
           holders"
  using fetchTopHolders_Inr [OF assms]
    rankHolders_sorted [of "isOnCurve c" "candidates c limit w" limit]
  by simp

text \<open>
  On the sample ledger \<open>alice\<close> and \<open>bob\<close> both hold 7; \<open>alice\<close> was seen first and comes
  first.
\<close>

theorem refresh_sorted_stable_witness:
  "fst (fetchTopHolders
     (sample_chain [''acct1'', ''acct2'', ''acct3'', ''acct4'', ''acct5'', ''acct6'', ''acct7''])
     20 sample_world)
     = Inr [\<lparr>address = ''alice'', balance = 7\<rparr>, \<lparr>address = ''bob'', balance = 7\<rparr>]
   \<and> first_seen (\<lambda>k. k \<noteq> ''vault-pda'')
        (candidates
          (sample_chain [''acct1'', ''acct2'', ''acct3'', ''acct4'', ''acct5'', ''acct6'', ''acct7''])
          20 sample_world) ''alice''
     < first_seen (\<lambda>k. k \<noteq> ''vault-pda'')
        (candidates
          (sample_chain [''acct1'', ''acct2'', ''acct3'', ''acct4'', ''acct5'', ''acct6'', ''acct7''])
          20 sample_world) ''bob''"
  using refresh_sorted_stable [OF sample_fetch]
  by (simp add: sample_fetch) (simp add: sample_chain_def)

section \<open>Properties of the cron bots\<close>





lemma fetchTopHolders_requests:
  assumes "fetchTopHolders c limit w = (x, w')"
  shows "ledger w' = ledger w
       \<and> (\<exists>keys. requests w' = requests w @ [GetTokenLargestAccounts]
               \<or> requests w' = requests w @ [GetTokenLargestAccounts, GetMultipleAccountsInfo keys])"
  using assms
  by (auto simp: fetchTopHolders_def query_def Let_def
           split: sum.splits option.splits if_splits prod.splits)





text \<open>
  The pending amount is a rounded quotient: 100000000 lamports are the double nearest to
  0.1, the number that a threshold text \<open>0.1\<close> is converted to, and so are not below it.
\<close>

lemma pending_tenth:
  "js_divide (to_double (real 100000000)) (Num LAMPORTS_PER_SOL)
     = Num (3602879701896397 / 36028797018963968)
   \<and> \<not> js_lt (js_divide (to_double (real 100000000)) (Num LAMPORTS_PER_SOL))
           (Num (3602879701896397 / 36028797018963968))"
proof -
  have "to_double (1 / 10) = Num (3602879701896397 / 36028797018963968)"
    using to_double_eval [of "- 4" "1 / 10" 7205759403792794 1]
    by (simp add: round_half_even_def Let_def)
  then show ?thesis by (simp add: to_double_numeral LAMPORTS_PER_SOL_def)
qed











text \<open>
  Claim C7. \<open>distributeRewards\<close> with an empty holder list fails with the error
  \<open>No holders available for distribution\<close>; no request has been made, and the ledger,
  with the two counters of the pool, is as it was.
\<close>

theorem distribute_empty_holders_fails:
  "distributeRewards c [] w = (Inl (Error ''No holders available for distribution''), w)
   \<and> requests (snd (distributeRewards c [] w)) = requests w
   \<and> totalRewards (pool (ledger (snd (distributeRewards c [] w)))) = totalRewards (pool (ledger w))
   \<and> totalDistributed (pool (ledger (snd (distributeRewards c [] w))))
       = totalDistributed (pool (ledger w))"
  by (simp add: distributeRewards_def)

theorem distribute_empty_holders_fails_witness:
  "distributeRewards (sample_chain []) [] sample_world
     = (Inl (Error ''No holders available for distribution''), sample_world)"
  using distribute_empty_holders_fails [of "sample_chain []" sample_world] by simp

text \<open>A refresh fails exactly when one of its queries is rejected.\<close>

lemma fetchTopHolders_fails_iff:
  "isl (fst (fetchTopHolders c limit w)) \<longleftrightarrow> \<not> refresh_answered c limit (ledger w)"
  by (auto simp: fetchTopHolders_def refresh_answered_def query_def Let_def
           split: sum.splits option.splits)

lemma fetchTopHolders_answered:
  assumes "refresh_answered c limit (ledger w)"
  shows "fst (fetchTopHolders c limit w)
           = Inr (rankHolders (isOnCurve c) (candidates c limit w) limit)"
proof -
  from assms have "\<not> isl (fst (fetchTopHolders c limit w))"
    by (simp add: fetchTopHolders_fails_iff)
  then obtain holders where "fst (fetchTopHolders c limit w) = Inr holders"
    by (cases "fst (fetchTopHolders c limit w)") simp_all
  moreover then have "fetchTopHolders c limit w = (Inr holders, snd (fetchTopHolders c limit w))"
    by (metis prod.collapse)
  ultimately show ?thesis using fetchTopHolders_Inr by metis
qed

text \<open>
  Claim C8, as the code has it. A refresh fails only when one of its queries is
  rejected. A refresh whose queries are answered and none of whose candidates is
  eligible does not fail: it returns the empty list and leaves the ledger as it is. In
  a run of the bot where the threshold is met, the claim is confirmed and
  the refresh that follows is of that kind, the bot exits with status 0: after the claim
  it has made the queries of the refresh and nothing else, no distribute and no
  update-holders request among them, so the ledger, with the stored holder list, is as
  the claim left it.
\<close>

theorem empty_refresh_skips_distribution:
  "(isl (fst (fetchTopHolders c limit v)) \<longleftrightarrow> \<not> refresh_answered c limit (ledger v))
   \<and> (refresh_answered c limit (ledger v)
      \<and> (\<forall>info\<in>set (candidates c limit v). \<not> eligible (isOnCurve c) info)
     \<longrightarrow> fetchTopHolders c limit v = (Inr [], snd (fetchTopHolders c limit v))
       \<and> ledger (snd (fetchTopHolders c limit v)) = ledger v)
   \<and> (getCreatorVaultBalanceBothPrograms c (ledger w) = Inr lamports
      \<and> \<not> js_lt (js_divide (to_double (real lamports)) (Num LAMPORTS_PER_SOL))
              REWARD_THRESHOLD_SOL
      \<and> sendCollectCoinCreatorFee c (ledger w) = Inr (claimSignature, l)
      \<and> refresh_answered c 20 l
      \<and> (\<forall>info\<in>set (candidates c 20
              \<lparr>ledger = l,
               requests = requests w @ [GetCreatorVaultBalance, CollectCreatorFees]\<rparr>).
            \<not> eligible (isOnCurve c) info)
     \<longrightarrow> (\<exists>w'. cron_bot_live c REWARD_THRESHOLD_SOL w = (0, w')
            \<and> ledger w' = l
            \<and> (\<exists>keys.
                 requests w' = requests w @
                   [GetCreatorVaultBalance, CollectCreatorFees, GetTokenLargestAccounts]
               \<or> requests w' = requests w @
                   [GetCreatorVaultBalance, CollectCreatorFees, GetTokenLargestAccounts,
                    GetMultipleAccountsInfo keys])))"
proof (intro conjI impI)
  show "isl (fst (fetchTopHolders c limit v)) \<longleftrightarrow> \<not> refresh_answered c limit (ledger v)"
    by (rule fetchTopHolders_fails_iff)
next
  assume a: "refresh_answered c limit (ledger v)
      \<and> (\<forall>info\<in>set (candidates c limit v). \<not> eligible (isOnCurve c) info)"
  then have "fst (fetchTopHolders c limit v)
      = Inr (rankHolders (isOnCurve c) (candidates c limit v) limit)"
    by (intro fetchTopHolders_answered) simp
  with a have "fst (fetchTopHolders c limit v) = Inr []"
    by (simp add: rankHolders_empty_iff)
  then show "fetchTopHolders c limit v = (Inr [], snd (fetchTopHolders c limit v))"
    by (metis prod.collapse)
  show "ledger (snd (fetchTopHolders c limit v)) = ledger v"
    using fetchTopHolders_requests [of c limit v "fst (fetchTopHolders c limit v)"
        "snd (fetchTopHolders c limit v)"]
    by simp
next
  let ?w1 = "w\<lparr>requests := requests w @ [GetCreatorVaultBalance]\<rparr>"
  let ?w2 = "\<lparr>ledger = l, requests = requests w @ [GetCreatorVaultBalance, CollectCreatorFees]\<rparr>"
  assume a: "getCreatorVaultBalanceBothPrograms c (ledger w) = Inr lamports
      \<and> \<not> js_lt (js_divide (to_double (real lamports)) (Num LAMPORTS_PER_SOL))
              REWARD_THRESHOLD_SOL
      \<and> sendCollectCoinCreatorFee c (ledger w) = Inr (claimSignature, l)
      \<and> refresh_answered c 20 l
      \<and> (\<forall>info\<in>set (candidates c 20 ?w2). \<not> eligible (isOnCurve c) info)"
  have 1: "getPendingCreatorRewards c w
      = (Inr (js_divide (to_double (real lamports)) (Num LAMPORTS_PER_SOL)), ?w1)"
    using a by (simp add: getPendingCreatorRewards_def query_def)
  have 2: "collectCreatorFees c ?w1 = (Inr claimSignature, ?w2)"
    using a by (simp add: collectCreatorFees_def sendAndConfirm_def)
  obtain w3 where w3: "w3 = snd (fetchTopHolders c 20 ?w2)" by simp
  from a have "fst (fetchTopHolders c 20 ?w2)
      = Inr (rankHolders (isOnCurve c) (candidates c 20 ?w2) 20)"
    by (intro fetchTopHolders_answered) simp
  with a have "fst (fetchTopHolders c 20 ?w2) = Inr []"
    by (simp add: rankHolders_empty_iff)
  with w3 have 3: "fetchTopHolders c 20 ?w2 = (Inr [], w3)"
    by (metis prod.collapse)
  from a have run: "cron_bot_live c REWARD_THRESHOLD_SOL w = (0, w3)"
    by (simp add: cron_bot_live_def main_def exit_status_def 1 2 3)
  from fetchTopHolders_requests [OF 3]
  have "ledger w3 = l"
    and "\<exists>keys. requests w3 = requests w @
                   [GetCreatorVaultBalance, CollectCreatorFees, GetTokenLargestAccounts]
               \<or> requests w3 = requests w @
                   [GetCreatorVaultBalance, CollectCreatorFees, GetTokenLargestAccounts,
                    GetMultipleAccountsInfo keys]"
    by auto
  with run show "\<exists>w'. cron_bot_live c REWARD_THRESHOLD_SOL w = (0, w')
            \<and> ledger w' = l
            \<and> (\<exists>keys.
                 requests w' = requests w @
                   [GetCreatorVaultBalance, CollectCreatorFees, GetTokenLargestAccounts]
               \<or> requests w' = requests w @
                   [GetCreatorVaultBalance, CollectCreatorFees, GetTokenLargestAccounts,
                    GetMultipleAccountsInfo keys])"
    by blast
qed

text \<open>
  On the sample ledger, with a program-derived owner, an empty account, an undecodable
  one and a missing one as the candidates: the refresh returns the empty list, and the
  run of the bot ends with status 0 after the claim and the two queries.
\<close>

theorem empty_refresh_skips_distribution_witness:
  "refresh_answered (sample_chain [''acct2'', ''acct5'', ''acct6'', ''acct7'']) 20
     (ledger sample_world)
   \<and> fst (fetchTopHolders (sample_chain [''acct2'', ''acct5'', ''acct6'', ''acct7'']) 20
            sample_world) = Inr []
   \<and> \<not> js_lt (js_divide (to_double (real 2000000000)) (Num LAMPORTS_PER_SOL)) (Num 1)
   \<and> cron_bot_live (sample_chain [''acct2'', ''acct5'', ''acct6'', ''acct7'']) (Num 1) sample_world
     = (0, \<lparr>ledger = \<lparr>pool = \<lparr>owner = ''owner'', topHolders = [], totalRewards = 0,
                               totalDistributed = 0\<rparr>,
                       vaultLamports = 3500000000, creatorVaultLamports = 0\<rparr>,
             requests = [GetCreatorVaultBalance, CollectCreatorFees, GetTokenLargestAccounts,
                         GetMultipleAccountsInfo [''acct2'', ''acct5'', ''acct6'', ''acct7'']]\<rparr>)"
proof -
  let ?c = "sample_chain [''acct2'', ''acct5'', ''acct6'', ''acct7'']"
  let ?l = "\<lparr>pool = \<lparr>owner = ''owner'', topHolders = [], totalRewards = 0, totalDistributed = 0\<rparr>,
            vaultLamports = 3500000000, creatorVaultLamports = 0\<rparr>"
  let ?w2 = "\<lparr>ledger = ?l,
             requests = requests sample_world @ [GetCreatorVaultBalance, CollectCreatorFees]\<rparr>"
  have answered: "refresh_answered ?c 20 (ledger sample_world)" "refresh_answered ?c 20 ?l"
    by (simp_all add: refresh_answered_def sample_chain_def)
  have none: "\<forall>info\<in>set (candidates ?c 20 sample_world). \<not> eligible (isOnCurve ?c) info"
    "\<forall>info\<in>set (candidates ?c 20 ?w2). \<not> eligible (isOnCurve ?c) info"
    by (simp_all add: candidates_def sample_defs)
  have met: "\<not> js_lt (js_divide (to_double (real 2000000000)) (Num LAMPORTS_PER_SOL)) (Num 1)"
    by (simp add: to_double_numeral LAMPORTS_PER_SOL_def)
  have pending: "getCreatorVaultBalanceBothPrograms ?c (ledger sample_world) = Inr 2000000000"
    by (simp add: sample_defs)
  have claimed: "sendCollectCoinCreatorFee ?c (ledger sample_world) = Inr (''claimed'', ?l)"
    by (simp add: sample_defs)
  note inst = empty_refresh_skips_distribution [of ?c 20 sample_world sample_world 2000000000
      "Num 1" "''claimed''" ?l]
  from inst answered(1) none(1)
  have "fetchTopHolders ?c 20 sample_world
      = (Inr [], snd (fetchTopHolders ?c 20 sample_world))"
    by blast
  then have 1: "fst (fetchTopHolders ?c 20 sample_world) = Inr []" by (metis fst_conv)
  from inst pending met claimed answered(2) none(2)
  obtain w' where "cron_bot_live ?c (Num 1) sample_world = (0, w')" by blast
  moreover have "snd (cron_bot_live ?c (Num 1) sample_world)
      = \<lparr>ledger = ?l,
         requests = [GetCreatorVaultBalance, CollectCreatorFees, GetTokenLargestAccounts,
                     GetMultipleAccountsInfo [''acct2'', ''acct5'', ''acct6'', ''acct7'']]\<rparr>"
    by (simp add: bot_defs sample_defs)
  ultimately have 2: "cron_bot_live ?c (Num 1) sample_world
     = (0, \<lparr>ledger = ?l,
             requests = [GetCreatorVaultBalance, CollectCreatorFees, GetTokenLargestAccounts,
                         GetMultipleAccountsInfo [''acct2'', ''acct5'', ''acct6'', ''acct7'']]\<rparr>)"
    by simp
  from answered(1) 1 met 2 show ?thesis by simp
qed

text \<open>
  Claim C8 as the specification states it fails on the sample ledger: with no eligible
  candidate the refresh is no failure, it returns the empty list.
\<close>

theorem refresh_empty_returns_empty_list:
  "fst (fetchTopHolders (sample_chain [''acct2'', ''acct5'', ''acct6'', ''acct7'']) 20 sample_world)
     = Inr []"
  by (simp add: bot_defs sample_defs)

section \<open>Properties of the withdrawal script\<close>







end
